theory Spec2Isabelle
  imports Main
begin

section \<open>BabySchlaf sync server: a model of \<^verbatim>\<open>server.js\<close>\<close>

text \<open>
  The server keeps three SQLite tables (families, sync\_data, entries) and answers
  JSON requests. Each route handler is modelled as a function from the database state
  (and the inputs the handler reads: the request body, the clock, the random source)
  to the response and, for the handlers that write, the database state afterwards.
  An exception that escapes a handler is a value of the model (\<open>Uncaught\<close>); the
  state returned with it is what has been committed by then.
\<close>

subsection \<open>Request values\<close>

text \<open>
  A request body is a JSON object. A property of it is absent (\<^verbatim>\<open>undefined\<close>),
  \<^verbatim>\<open>null\<close>, or a value. The model gives every property that a handler inspects the JSON
  type the HTTP interface documents for it: codes, device ids and entry ids are strings,
  \<^verbatim>\<open>_ts\<close> and \<^verbatim>\<open>since\<close> are integers (unix seconds, of either sign), \<^verbatim>\<open>_deleted\<close> is a
  boolean, \<^verbatim>\<open>entries\<close> is an array. Values of other JSON types in these places (a
  number as code, a string as \<^verbatim>\<open>_ts\<close>) are outside the model. Strings are ASCII.
\<close>

datatype 'a jsfield = Undefined | Null | Val 'a

text \<open>Opaque payloads (the \<^verbatim>\<open>babies\<close> profile list, the remaining properties of an entry).\<close>

datatype json =
    JNull
  | JBool bool
  | JNum int
  | JStr string
  | JArr "json list"
  | JObj "(string \<times> json) list"

text \<open>JavaScript truthiness, as used by \<^verbatim>\<open>!x\<close>, \<^verbatim>\<open>x || d\<close>, \<^verbatim>\<open>x ? a : b\<close> and \<^verbatim>\<open>x && y\<close>.\<close>

fun truthy_str :: "string jsfield \<Rightarrow> bool" where
  "truthy_str (Val s) = (s \<noteq> [])"
| "truthy_str _ = False"

fun truthy_bool :: "bool jsfield \<Rightarrow> bool" where
  "truthy_bool (Val b) = b"
| "truthy_bool _ = False"

fun truthy_json :: "json \<Rightarrow> bool" where
  "truthy_json JNull = False"
| "truthy_json (JBool b) = b"
| "truthy_json (JNum n) = (n \<noteq> 0)"
| "truthy_json (JStr s) = (s \<noteq> [])"
| "truthy_json (JArr _) = True"
| "truthy_json (JObj _) = True"

text \<open>\<^verbatim>\<open>x || d\<close> on a number property: \<^verbatim>\<open>e._ts || now\<close>, \<^verbatim>\<open>since || 0\<close>.\<close>

fun num_or :: "int jsfield \<Rightarrow> int \<Rightarrow> int" where
  "num_or (Val n) d = (if n \<noteq> 0 then n else d)"
| "num_or _ d = d"

text \<open>\<^verbatim>\<open>babies || []\<close>; \<open>None\<close> is a request without the property.\<close>

fun babies_or_empty :: "json option \<Rightarrow> json" where
  "babies_or_empty None = JArr []"
| "babies_or_empty (Some v) = (if truthy_json v then v else JArr [])"

text \<open>
  An element of the \<^verbatim>\<open>entries\<close> array: an object with the properties the handler reads
  (\<^verbatim>\<open>id\<close>, \<^verbatim>\<open>_deleted\<close>, \<^verbatim>\<open>_ts\<close>) and the rest of its properties. The array may also hold
  \<^verbatim>\<open>null\<close> (\<open>None\<close>).
\<close>

record entry =
  js_id :: "string jsfield"
  js_deleted :: "bool jsfield"
  js_ts :: "int jsfield"
  js_rest :: "(string \<times> json) list"

record push_req =
  push_code :: "string jsfield"
  push_device_id :: "string jsfield"
  push_babies :: "json option"
  push_entries :: "entry option list jsfield"

record pull_req =
  pull_code :: "string jsfield"
  pull_since :: "int jsfield"

subsection \<open>The database\<close>

text \<open>
  A table is the list of its rows in insertion order, each row with its primary key
  first. The \<^verbatim>\<open>data\<close> column of sync\_data and entries holds \<^verbatim>\<open>JSON.stringify\<close> of a
  request value and is only ever read back through \<^verbatim>\<open>JSON.parse\<close>, so the model stores
  the value itself. Text comparison in SQLite is exact (case sensitive). The queries
  of pull have no \<^verbatim>\<open>ORDER BY\<close>: the model lists their rows in table order, SQLite lists
  them in the order of the primary-key index, and the properties below are about which
  rows are returned, not about their order. The foreign key of sync\_data holds
  wherever the handlers write, since push looks the family up first.
\<close>

type_synonym ('k, 'v) table = "('k \<times> 'v) list"

record family_row =
  f_created_at :: int
  f_last_sync :: int

record sync_row =
  s_data :: json
  s_updated_at :: int

record entry_row =
  e_data :: entry
  e_deleted :: int
  e_updated_at :: int

record db =
  families :: "(string, family_row) table"
  sync_data :: "(string \<times> string, sync_row) table"
  entries :: "(string \<times> string, entry_row) table"

text \<open>\<^verbatim>\<open>SELECT ... WHERE key = ?\<close> with \<^verbatim>\<open>.get\<close>: the first matching row, if any.\<close>

definition select_get :: "('k, 'v) table \<Rightarrow> 'k \<Rightarrow> ('k \<times> 'v) option" where
  "select_get t k = find (\<lambda>r. fst r = k) t"

text \<open>\<^verbatim>\<open>INSERT OR REPLACE\<close>: a row with the same primary key is deleted, the new row is added.\<close>

definition insert_or_replace :: "'k \<Rightarrow> 'v \<Rightarrow> ('k, 'v) table \<Rightarrow> ('k, 'v) table" where
  "insert_or_replace k v t = filter (\<lambda>r. fst r \<noteq> k) t @ [(k, v)]"

text \<open>\<^verbatim>\<open>UPDATE families SET last_sync = ? WHERE code = ?\<close>\<close>

definition update_last_sync :: "int \<Rightarrow> string \<Rightarrow> (string, family_row) table \<Rightarrow> (string, family_row) table" where
  "update_last_sync now code t =
     map (\<lambda>(k, r). if k = code then (k, r\<lparr>f_last_sync := now\<rparr>) else (k, r)) t"

subsection \<open>Errors\<close>

datatype exn = TypeError | SqliteError

datatype error = InvalidArgument | NotFound | Uncaught exn

subsection \<open>Family codes: \<^verbatim>\<open>genCode\<close> and \<^verbatim>\<open>POST /api/family/create\<close>\<close>

definition chars :: string where
  "chars = ''ABCDEFGHJKLMNPQRSTUVWXYZ23456789''"

text \<open>
  \<^verbatim>\<open>crypto.randomInt(n)\<close> returns an integer in \<open>[0, n)\<close>. The random source is a
  parameter: \<open>rnd p\<close> is the entropy behind the \<open>p\<close>-th draw, reduced into the range.
\<close>

definition randomInt :: "(nat \<Rightarrow> nat) \<Rightarrow> nat \<Rightarrow> nat \<Rightarrow> nat" where
  "randomInt rnd p n = rnd p mod n"

text \<open>The inner loop: \<^verbatim>\<open>for (let i = 0; i < 6; i++) code += chars[crypto.randomInt(chars.length)]\<close>,
  with \<open>n\<close> the number of iterations left and \<open>p\<close> the number of draws made so far.\<close>

fun gen_chars :: "(nat \<Rightarrow> nat) \<Rightarrow> nat \<Rightarrow> nat \<Rightarrow> string" where
  "gen_chars rnd p 0 = []"
| "gen_chars rnd p (Suc n) = chars ! randomInt rnd p (length chars) # gen_chars rnd (Suc p) n"

text \<open>\<^verbatim>\<open>exists.get(code)\<close> with \<^verbatim>\<open>SELECT 1 FROM families WHERE code = ?\<close>\<close>

definition exists_get :: "db \<Rightarrow> string \<Rightarrow> bool" where
  "exists_get d code = (select_get (families d) code \<noteq> None)"

text \<open>
  The \<^verbatim>\<open>do ... while (exists.get(code))\<close> loop has no bound; \<open>None\<close> is the loop that
  never ends. The result carries the number of draws made.
\<close>

partial_function (option) genCode :: "db \<Rightarrow> (nat \<Rightarrow> nat) \<Rightarrow> nat \<Rightarrow> (string \<times> nat) option" where
  "genCode d rnd p =
     (if exists_get d (gen_chars rnd p 6) then genCode d rnd (p + 6)
      else Some (gen_chars rnd p 6, p + 6))"

text \<open>\<^verbatim>\<open>INSERT INTO families (code) VALUES (?)\<close>: both timestamps default to the clock;
  a second row with the same primary key is a constraint failure.\<close>

definition insert_family :: "string \<Rightarrow> int \<Rightarrow> db \<Rightarrow> exn option \<times> db" where
  "insert_family code now d =
     (if select_get (families d) code \<noteq> None then (Some SqliteError, d)
      else (None, d\<lparr>families := families d @ [(code, \<lparr>f_created_at = now, f_last_sync = now\<rparr>)]\<rparr>))"

definition create :: "db \<Rightarrow> (nat \<Rightarrow> nat) \<Rightarrow> nat \<Rightarrow> int \<Rightarrow> ((error + string) \<times> db \<times> nat) option" where
  "create d rnd p now =
     (case genCode d rnd p of
        None \<Rightarrow> None
      | Some (code, p') \<Rightarrow>
          (case insert_family code now d of
             (Some ex, d') \<Rightarrow> Some (Inl (Uncaught ex), d', p')
           | (None, d') \<Rightarrow> Some (Inr code, d', p')))"

subsection \<open>\<^verbatim>\<open>POST /api/family/join\<close>\<close>

text \<open>\<^verbatim>\<open>String.prototype.toUpperCase\<close> on ASCII text: a lower-case letter becomes the
  upper-case letter at the same place of the alphabet, any other character stays.\<close>

definition lower_letters :: string where
  "lower_letters = ''abcdefghijklmnopqrstuvwxyz''"

definition upper_letters :: string where
  "upper_letters = ''ABCDEFGHIJKLMNOPQRSTUVWXYZ''"

definition to_upper :: "char \<Rightarrow> char" where
  "to_upper c = (case map_of (zip lower_letters upper_letters) c of Some u \<Rightarrow> u | None \<Rightarrow> c)"

definition toUpperCase :: "string \<Rightarrow> string" where
  "toUpperCase s = map to_upper s"

definition join :: "db \<Rightarrow> string jsfield \<Rightarrow> error + string" where
  "join d code =
     (case code of
        Val c \<Rightarrow>
          if c = [] \<or> length c \<noteq> 6 then Inl InvalidArgument
          else (case select_get (families d) (toUpperCase c) of
                  None \<Rightarrow> Inl NotFound
                | Some family \<Rightarrow> Inr (fst family))
      | _ \<Rightarrow> Inl InvalidArgument)"

subsection \<open>\<^verbatim>\<open>POST /api/sync/push\<close>\<close>

text \<open>
  One \<^verbatim>\<open>upsert.run(code, e.id, JSON.stringify(e), e._deleted ? 1 : 0, e._ts || now)\<close>.
  Reading \<^verbatim>\<open>e.id\<close> of \<^verbatim>\<open>null\<close> throws a TypeError; better-sqlite3 binds
  \<^verbatim>\<open>undefined\<close> as \<^verbatim>\<open>NULL\<close>, and SQLite rejects \<^verbatim>\<open>NULL\<close> for the NOT NULL column
  entry\_id. \<open>stored_row\<close> is the row made of the last three arguments.
\<close>

definition stored_row :: "int \<Rightarrow> entry \<Rightarrow> entry_row" where
  "stored_row now ent =
     \<lparr>e_data = ent,
      e_deleted = (if truthy_bool (js_deleted ent) then 1 else 0),
      e_updated_at = num_or (js_ts ent) now\<rparr>"

definition upsert_run :: "string \<Rightarrow> int \<Rightarrow> entry option \<Rightarrow> db \<Rightarrow> exn option \<times> db" where
  "upsert_run code now e d =
     (case e of
        None \<Rightarrow> (Some TypeError, d)
      | Some ent \<Rightarrow>
          (case js_id ent of
             Undefined \<Rightarrow> (Some SqliteError, d)
           | Null \<Rightarrow> (Some SqliteError, d)
           | Val i \<Rightarrow>
               (None, d\<lparr>entries := insert_or_replace (code, i) (stored_row now ent) (entries d)\<rparr>)))"

text \<open>The body of the transaction function: \<^verbatim>\<open>for (const e of items) upsert.run(...)\<close>.
  An exception leaves the loop with the rows written so far.\<close>

fun upsert_items :: "string \<Rightarrow> int \<Rightarrow> entry option list \<Rightarrow> db \<Rightarrow> exn option \<times> db" where
  "upsert_items code now [] d = (None, d)"
| "upsert_items code now (e # es) d =
     (case upsert_run code now e d of
        (Some ex, d') \<Rightarrow> (Some ex, d')
      | (None, d') \<Rightarrow> upsert_items code now es d')"

text \<open>\<^verbatim>\<open>db.transaction(f)\<close>: commit when \<open>f\<close> returns, roll back to the state at
  \<^verbatim>\<open>BEGIN\<close> and rethrow when \<open>f\<close> throws.\<close>

definition transaction :: "(db \<Rightarrow> exn option \<times> db) \<Rightarrow> db \<Rightarrow> exn option \<times> db" where
  "transaction f d =
     (case f d of
        (None, d') \<Rightarrow> (None, d')
      | (Some ex, d') \<Rightarrow> (Some ex, d))"

text \<open>\<^verbatim>\<open>if (entries && entries.length > 0) { ... tx(entries) }\<close>\<close>

definition merge_entries :: "string \<Rightarrow> int \<Rightarrow> entry option list jsfield \<Rightarrow> db \<Rightarrow> exn option \<times> db" where
  "merge_entries code now es d =
     (case es of
        Val (x # xs) \<Rightarrow> transaction (upsert_items code now (x # xs)) d
      | _ \<Rightarrow> (None, d))"

text \<open>\<^verbatim>\<open>entries?.length || 0\<close>\<close>

fun synced :: "entry option list jsfield \<Rightarrow> nat" where
  "synced (Val es) = length es"
| "synced _ = 0"

text \<open>The snapshot write: \<^verbatim>\<open>INSERT OR REPLACE INTO sync_data ... VALUES (code, device_id,
  JSON.stringify(babies || []), now)\<close>, a statement of its own outside any transaction.\<close>

definition save_snapshot :: "string \<Rightarrow> string \<Rightarrow> json option \<Rightarrow> int \<Rightarrow> db \<Rightarrow> db" where
  "save_snapshot code device_id babies now d =
     d\<lparr>sync_data :=
         insert_or_replace (code, device_id)
           \<lparr>s_data = babies_or_empty babies, s_updated_at = now\<rparr> (sync_data d)\<rparr>"

definition push :: "db \<Rightarrow> int \<Rightarrow> push_req \<Rightarrow> (error + nat) \<times> db" where
  "push d now req =
     (if \<not> truthy_str (push_code req) \<or> \<not> truthy_str (push_device_id req)
      then (Inl InvalidArgument, d)
      else
        (case (push_code req, push_device_id req) of
           (Val code, Val device_id) \<Rightarrow>
             (case select_get (families d) code of
                None \<Rightarrow> (Inl NotFound, d)
              | Some family \<Rightarrow>
                  (case merge_entries code now (push_entries req)
                          (save_snapshot code device_id (push_babies req) now d) of
                     (Some ex, d') \<Rightarrow> (Inl (Uncaught ex), d')
                   | (None, d') \<Rightarrow>
                       (Inr (synced (push_entries req)),
                        d'\<lparr>families := update_last_sync now code (families d')\<rparr>)))
         | _ \<Rightarrow> (Inl InvalidArgument, d)))"

subsection \<open>\<^verbatim>\<open>POST /api/sync/pull\<close>\<close>

record pull_resp =
  r_entries :: "entry list"
  r_devices :: "(string \<times> json \<times> int) list"
  r_server_time :: int

text \<open>\<^verbatim>\<open>const d = JSON.parse(e.data); if (e.deleted) d._deleted = true; return d\<close>\<close>

definition parsed :: "entry_row \<Rightarrow> entry" where
  "parsed r = (if e_deleted r \<noteq> 0 then (e_data r)\<lparr>js_deleted := Val True\<rparr> else e_data r)"

text \<open>\<^verbatim>\<open>SELECT data, deleted FROM entries WHERE family_code = ? AND updated_at > ?\<close>\<close>

definition select_entries :: "db \<Rightarrow> string \<Rightarrow> int \<Rightarrow> (string \<times> string, entry_row) table" where
  "select_entries d code sinceTs =
     filter (\<lambda>r. fst (fst r) = code \<and> e_updated_at (snd r) > sinceTs) (entries d)"

text \<open>\<^verbatim>\<open>SELECT device_id, data, updated_at FROM sync_data WHERE family_code = ?\<close>\<close>

definition select_devices :: "db \<Rightarrow> string \<Rightarrow> (string \<times> string, sync_row) table" where
  "select_devices d code = filter (\<lambda>r. fst (fst r) = code) (sync_data d)"

definition pull :: "db \<Rightarrow> int \<Rightarrow> pull_req \<Rightarrow> error + pull_resp" where
  "pull d now req =
     (if \<not> truthy_str (pull_code req) then Inl InvalidArgument
      else
        (case pull_code req of
           Val code \<Rightarrow>
             (case select_get (families d) code of
                None \<Rightarrow> Inl NotFound
              | Some family \<Rightarrow>
                  Inr \<lparr>r_entries = map (\<lambda>r. parsed (snd r)) (select_entries d code (num_or (pull_since req) 0)),
                       r_devices = map (\<lambda>r. (snd (fst r), s_data (snd r), s_updated_at (snd r)))
                                     (select_devices d code),
                       r_server_time = now\<rparr>)
         | _ \<Rightarrow> Inl InvalidArgument))"

subsection \<open>Well-formed codes and stores\<close>

text \<open>A code as \<^verbatim>\<open>genCode\<close> builds it: six symbols of the alphabet. In a store that the
  handlers have built, every family has such a code.\<close>

definition valid_code :: "string \<Rightarrow> bool" where
  "valid_code c = (length c = 6 \<and> set c \<subseteq> set chars)"

definition wf_db :: "db \<Rightarrow> bool" where
  "wf_db d = list_all (\<lambda>r. valid_code (fst r)) (families d)"

text \<open>
  Letter case, stated without reference to \<open>to_upper\<close>: the pairs of a lower-case
  letter and its upper-case letter. Two characters are the same letter when they are
  equal or form such a pair, in either order; two strings differ only in letter case
  when they have the same length and are the same letter at every position.
\<close>

definition letter_pairs :: "(char \<times> char) list" where
  "letter_pairs =
     [(CHR ''a'', CHR ''A''), (CHR ''b'', CHR ''B''), (CHR ''c'', CHR ''C''), (CHR ''d'', CHR ''D''),
      (CHR ''e'', CHR ''E''), (CHR ''f'', CHR ''F''), (CHR ''g'', CHR ''G''), (CHR ''h'', CHR ''H''),
      (CHR ''i'', CHR ''I''), (CHR ''j'', CHR ''J''), (CHR ''k'', CHR ''K''), (CHR ''l'', CHR ''L''),
      (CHR ''m'', CHR ''M''), (CHR ''n'', CHR ''N''), (CHR ''o'', CHR ''O''), (CHR ''p'', CHR ''P''),
      (CHR ''q'', CHR ''Q''), (CHR ''r'', CHR ''R''), (CHR ''s'', CHR ''S''), (CHR ''t'', CHR ''T''),
      (CHR ''u'', CHR ''U''), (CHR ''v'', CHR ''V''), (CHR ''w'', CHR ''W''), (CHR ''x'', CHR ''X''),
      (CHR ''y'', CHR ''Y''), (CHR ''z'', CHR ''Z'')]"

definition same_letter :: "char \<Rightarrow> char \<Rightarrow> bool" where
  "same_letter a b = (a = b \<or> (a, b) \<in> set letter_pairs \<or> (b, a) \<in> set letter_pairs)"

definition differs_only_in_case :: "string \<Rightarrow> string \<Rightarrow> bool" where
  "differs_only_in_case a b = list_all2 same_letter a b"

text \<open>Two codes with the same upper-casing.\<close>

definition same_modulo_case :: "string \<Rightarrow> string \<Rightarrow> bool" where
  "same_modulo_case a b = (toUpperCase a = toUpperCase b)"

subsection \<open>A concrete store\<close>

text \<open>The family of the specification's scenario, with code AB23CD, no device and no
  entry yet; and the entry \<^verbatim>\<open>{id: "e1", _ts: 100, note: "x"}\<close>.\<close>

definition family0 :: db where
  "family0 =
     \<lparr>families = [(''AB23CD'', \<lparr>f_created_at = 1000, f_last_sync = 1000\<rparr>)],
      sync_data = [], entries = []\<rparr>"

definition entry1 :: entry where
  "entry1 = \<lparr>js_id = Val ''e1'', js_deleted = Undefined, js_ts = Val 100,
             js_rest = [(''note'', JStr ''x'')]\<rparr>"

section \<open>Properties\<close>

subsection \<open>Tables\<close>

lemma select_get_None_iff: "select_get t k = None \<longleftrightarrow> k \<notin> fst ` set t"
  by (force simp: select_get_def find_None_iff)

lemma select_get_Some_key: "select_get t k = Some r \<Longrightarrow> fst r = k \<and> r \<in> set t"
  by (auto simp: select_get_def find_Some_iff)

lemma select_get_append:
  "select_get (xs @ ys) k = (case select_get xs k of None \<Rightarrow> select_get ys k | Some r \<Rightarrow> Some r)"
  by (induction xs) (auto simp: select_get_def)

lemma select_get_filter_other: "select_get (filter (\<lambda>r. fst r \<noteq> k) t) k = None"
  by (auto simp: select_get_None_iff)

lemma select_get_insert_same: "select_get (insert_or_replace k v t) k = Some (k, v)"
  by (simp add: insert_or_replace_def select_get_append select_get_filter_other) (simp add: select_get_def)



subsection \<open>Push: what each step writes\<close>

lemma upsert_run_frame:
  "upsert_run code now e d = (r, d') \<Longrightarrow> families d' = families d \<and> sync_data d' = sync_data d"
  by (auto simp: upsert_run_def split: option.splits jsfield.splits)


lemma upsert_items_frame:
  "upsert_items code now es d = (r, d') \<Longrightarrow> families d' = families d \<and> sync_data d' = sync_data d"
proof (induction es arbitrary: d)
  case Nil
  then show ?case by simp
next
  case (Cons e es)
  obtain r1 d1 where step: "upsert_run code now e d = (r1, d1)"
    by (cases "upsert_run code now e d")
  show ?case
  proof (cases r1)
    case None
    with Cons.prems step have "upsert_items code now es d1 = (r, d')" by simp
    from Cons.IH [OF this] upsert_run_frame [OF step] show ?thesis by simp
  next
    case (Some ex)
    with Cons.prems step have "d' = d1" by simp
    with upsert_run_frame [OF step] show ?thesis by simp
  qed
qed


lemma transaction_rollback: "transaction f d = (Some ex, d') \<Longrightarrow> d' = d"
  by (auto simp: transaction_def split: prod.splits option.splits)

lemma transaction_commit: "transaction f d = (None, d') \<Longrightarrow> f d = (None, d')"
  by (auto simp: transaction_def split: prod.splits option.splits)

lemma merge_entries_rollback: "merge_entries code now es d = (Some ex, d') \<Longrightarrow> d' = d"
  by (auto simp: merge_entries_def split: jsfield.splits list.splits dest: transaction_rollback)

lemma merge_entries_commit:
  "merge_entries code now es d = (None, d') \<Longrightarrow> upsert_items code now (case es of Val xs \<Rightarrow> xs | _ \<Rightarrow> []) d = (None, d')"
  by (auto simp: merge_entries_def split: jsfield.splits list.splits dest: transaction_commit)

lemma merge_entries_frame:
  "merge_entries code now es d = (r, d') \<Longrightarrow> families d' = families d \<and> sync_data d' = sync_data d"
  by (cases r) (auto dest!: merge_entries_rollback merge_entries_commit upsert_items_frame)


lemma keys_update_last_sync: "map fst (update_last_sync now code t) = map fst t"
  by (induction t) (auto simp: update_last_sync_def)

lemma select_get_update_last_sync:
  "select_get (update_last_sync now code t) k = None \<longleftrightarrow> select_get t k = None"
  using keys_update_last_sync [of now code t]
  by (metis select_get_None_iff set_map)

text \<open>The three outcomes of push, in terms of the store.\<close>

lemma push_cases:
  obtains
    (invalid) "\<not> truthy_str (push_code req) \<or> \<not> truthy_str (push_device_id req)"
      "push d now req = (Inl InvalidArgument, d)"
  | (not_found) code device_id where "push_code req = Val code" "push_device_id req = Val device_id"
      "code \<noteq> []" "device_id \<noteq> []" "select_get (families d) code = None"
      "push d now req = (Inl NotFound, d)"
  | (thrown) code device_id ex where "push_code req = Val code" "push_device_id req = Val device_id"
      "code \<noteq> []" "device_id \<noteq> []" "select_get (families d) code \<noteq> None"
      "merge_entries code now (push_entries req) (save_snapshot code device_id (push_babies req) now d)
         = (Some ex, save_snapshot code device_id (push_babies req) now d)"
      "push d now req = (Inl (Uncaught ex), save_snapshot code device_id (push_babies req) now d)"
  | (ok) code device_id d1 where "push_code req = Val code" "push_device_id req = Val device_id"
      "code \<noteq> []" "device_id \<noteq> []" "select_get (families d) code \<noteq> None"
      "merge_entries code now (push_entries req) (save_snapshot code device_id (push_babies req) now d)
         = (None, d1)"
      "push d now req = (Inr (synced (push_entries req)), d1\<lparr>families := update_last_sync now code (families d1)\<rparr>)"
proof (cases "truthy_str (push_code req) \<and> truthy_str (push_device_id req)")
  case False
  then show ?thesis using invalid by (auto simp: push_def)
next
  case True
  then obtain code device_id where v: "push_code req = Val code" "push_device_id req = Val device_id"
    "code \<noteq> []" "device_id \<noteq> []"
    by (cases "push_code req"; cases "push_device_id req") auto
  show ?thesis
  proof (cases "select_get (families d) code")
    case None
    with v show ?thesis using not_found by (auto simp: push_def)
  next
    case (Some fam)
    obtain r d1 where m: "merge_entries code now (push_entries req)
        (save_snapshot code device_id (push_babies req) now d) = (r, d1)"
      by (cases "merge_entries code now (push_entries req) (save_snapshot code device_id (push_babies req) now d)")
    show ?thesis
    proof (cases r)
      case None
      with v Some m show ?thesis using ok [of code device_id d1] by (auto simp: push_def)
    next
      case (Some ex)
      with m have "d1 = save_snapshot code device_id (push_babies req) now d"
        by (auto dest: merge_entries_rollback)
      with v \<open>select_get (families d) code = Some fam\<close> Some m show ?thesis
        using thrown [of code device_id ex] by (auto simp: push_def)
    qed
  qed
qed

lemma filter_key_insert_same:
  "filter (\<lambda>r. fst r = k) (insert_or_replace k v t) = [(k, v)]"
  by (induction t) (auto simp: insert_or_replace_def)

lemma filter_key_insert_other:
  "k' \<noteq> k \<Longrightarrow> filter (\<lambda>r. fst r = k) (insert_or_replace k' v t) = filter (\<lambda>r. fst r = k) t"
  by (induction t) (auto simp: insert_or_replace_def)

text \<open>In a batch that goes through, the last entry with a given id decides the row of
  that id.\<close>

lemma upsert_items_append:
  "upsert_items code now (xs @ ys) d =
     (case upsert_items code now xs d of
        (None, d1) \<Rightarrow> upsert_items code now ys d1
      | (Some ex, d1) \<Rightarrow> (Some ex, d1))"
  by (induction xs arbitrary: d) (auto split: prod.splits option.splits)

lemma upsert_run_other_key:
  assumes "upsert_run code now e d = (r, d')" and "\<forall>e'. e = Some e' \<longrightarrow> js_id e' \<noteq> Val i"
  shows "filter (\<lambda>x. fst x = (code, i)) (entries d') = filter (\<lambda>x. fst x = (code, i)) (entries d)"
  using assms
  by (auto simp: upsert_run_def filter_key_insert_other split: option.splits jsfield.splits)

lemma upsert_items_other_key:
  assumes "upsert_items code now es d = (r, d')" and "\<forall>e'. Some e' \<in> set es \<longrightarrow> js_id e' \<noteq> Val i"
  shows "filter (\<lambda>x. fst x = (code, i)) (entries d') = filter (\<lambda>x. fst x = (code, i)) (entries d)"
  using assms
proof (induction es arbitrary: d)
  case Nil
  then show ?case by simp
next
  case (Cons e es)
  obtain r1 d1 where step: "upsert_run code now e d = (r1, d1)"
    by (cases "upsert_run code now e d")
  from Cons.prems(2) have here: "\<forall>e'. e = Some e' \<longrightarrow> js_id e' \<noteq> Val i"
    and later: "\<forall>e'. Some e' \<in> set es \<longrightarrow> js_id e' \<noteq> Val i" by auto
  note k = upsert_run_other_key [OF step here]
  show ?case
  proof (cases r1)
    case None
    with Cons.prems(1) step have "upsert_items code now es d1 = (r, d')" by simp
    from Cons.IH [OF this later] k show ?thesis by simp
  next
    case (Some ex)
    with Cons.prems(1) step have "d' = d1" by simp
    with k show ?thesis by simp
  qed
qed

lemma upsert_items_last:
  assumes run: "upsert_items code now (pre @ Some e # post) d = (None, d')"
    and id: "js_id e = Val i"
    and last: "\<forall>e'. Some e' \<in> set post \<longrightarrow> js_id e' \<noteq> Val i"
  shows "filter (\<lambda>x. fst x = (code, i)) (entries d') = [((code, i), stored_row now e)]"
proof -
  obtain r1 d1 where pre: "upsert_items code now pre d = (r1, d1)"
    by (cases "upsert_items code now pre d")
  with run have r1: "r1 = None" and rest: "upsert_items code now (Some e # post) d1 = (None, d')"
    by (auto simp: upsert_items_append split: option.splits)
  let ?d2 = "d1\<lparr>entries := insert_or_replace (code, i) (stored_row now e) (entries d1)\<rparr>"
  from id have here: "upsert_run code now (Some e) d1 = (None, ?d2)"
    by (simp add: upsert_run_def)
  with rest have post: "upsert_items code now post ?d2 = (None, d')" by simp
  from upsert_items_other_key [OF post last]
  show ?thesis by (simp add: filter_key_insert_same)
qed

lemma push_ok_entries:
  assumes "push d now req = (Inr n, d')" and "push_code req = Val code"
    and "push_entries req = Val es"
  shows "\<exists>d0. upsert_items code now es d0 = (None, d'\<lparr>families := families d0\<rparr>) \<and> entries d0 = entries d"
    and "select_get (families d') code \<noteq> None" and "code \<noteq> []"
proof -
  from assms obtain device_id d1 where
    m: "merge_entries code now (push_entries req) (save_snapshot code device_id (push_babies req) now d) = (None, d1)"
    and d': "d' = d1\<lparr>families := update_last_sync now code (families d1)\<rparr>"
    and fam: "select_get (families d) code \<noteq> None" and ne: "code \<noteq> []"
    by (cases rule: push_cases [where req = req and d = d and now = now]) auto
  let ?d0 = "save_snapshot code device_id (push_babies req) now d"
  from m assms(3) have u: "upsert_items code now es ?d0 = (None, d1)"
    by (auto dest: merge_entries_commit)
  from upsert_items_frame [OF u] d' have "d'\<lparr>families := families ?d0\<rparr> = d1" by simp
  with u have "upsert_items code now es ?d0 = (None, d'\<lparr>families := families ?d0\<rparr>)" by simp
  moreover have "entries ?d0 = entries d" by (simp add: save_snapshot_def)
  ultimately show "\<exists>d0. upsert_items code now es d0 = (None, d'\<lparr>families := families d0\<rparr>) \<and> entries d0 = entries d"
    by blast
  from upsert_items_frame [OF u] have "families d1 = families d" by (simp add: save_snapshot_def)
  with d' fam show "select_get (families d') code \<noteq> None"
    by (simp add: select_get_update_last_sync)
  from ne show "code \<noteq> []" .
qed

lemma push_ok_last:
  assumes "push d now req = (Inr n, d')" and "push_code req = Val code"
    and "push_entries req = Val (pre @ Some e # post)"
    and "js_id e = Val i" and "\<forall>e'. Some e' \<in> set post \<longrightarrow> js_id e' \<noteq> Val i"
  shows "filter (\<lambda>x. fst x = (code, i)) (entries d') = [((code, i), stored_row now e)]"
proof -
  from push_ok_entries(1) [OF assms(1-3)] obtain d0 where
    "upsert_items code now (pre @ Some e # post) d0 = (None, d'\<lparr>families := families d0\<rparr>)"
    by blast
  from upsert_items_last [OF this assms(4,5)] show ?thesis by simp
qed



text \<open>The successful pull.\<close>

lemma pull_ok:
  assumes "pull_code q = Val code" and "code \<noteq> []" and "select_get (families d) code \<noteq> None"
  shows "pull d t q =
     Inr \<lparr>r_entries = map (\<lambda>r. parsed (snd r)) (select_entries d code (num_or (pull_since q) 0)),
          r_devices = map (\<lambda>r. (snd (fst r), s_data (snd r), s_updated_at (snd r))) (select_devices d code),
          r_server_time = t\<rparr>"
  using assms by (auto simp: pull_def)


text \<open>The definitions to unfold when a push is run on a concrete store.\<close>

lemmas push_eval = push_def family0_def entry1_def select_get_def save_snapshot_def merge_entries_def
        transaction_def upsert_run_def stored_row_def insert_or_replace_def update_last_sync_def

subsection \<open>Family codes\<close>

lemma length_gen_chars: "length (gen_chars rnd p n) = n"
  by (induction n arbitrary: p) simp_all

lemma length_chars: "length chars = 32"
  by (simp add: chars_def)

lemma set_gen_chars: "set (gen_chars rnd p n) \<subseteq> set chars"
proof (induction n arbitrary: p)
  case 0
  then show ?case by simp
next
  case (Suc n)
  have "randomInt rnd p (length chars) < length chars"
    by (simp add: randomInt_def length_chars)
  then have "chars ! randomInt rnd p (length chars) \<in> set chars"
    by (rule nth_mem)
  with Suc show ?case by simp
qed

lemma valid_gen_chars: "valid_code (gen_chars rnd p 6)"
  by (simp add: valid_code_def length_gen_chars set_gen_chars)

lemma genCode_Some:
  assumes "genCode d rnd p = Some r"
  shows "valid_code (fst r) \<and> \<not> exists_get d (fst r)"
  using assms
proof (induction d rnd p r rule: genCode.raw_induct [rotated 1, consumes 1, case_names step])
  case (step genCode' d rnd p r)
  show ?case
  proof (cases "exists_get d (gen_chars rnd p 6)")
    case True
    with step(2) have "genCode' d rnd (p + 6) = Some r" by simp
    then show ?thesis by (rule step(1))
  next
    case False
    with step(2) have "r = (gen_chars rnd p 6, p + 6)" by simp
    with False show ?thesis by (simp add: valid_gen_chars)
  qed
qed

text \<open>The loop ends as soon as the random source yields a code that no family has.\<close>

lemma genCode_returns:
  "\<not> exists_get d (gen_chars rnd (p + 6 * k) 6) \<Longrightarrow> genCode d rnd p \<noteq> None"
proof (induction k arbitrary: p)
  case 0
  then show ?case by (subst genCode.simps) simp
next
  case (Suc k)
  show ?case
  proof (cases "exists_get d (gen_chars rnd p 6)")
    case True
    from Suc.prems have "\<not> exists_get d (gen_chars rnd ((p + 6) + 6 * k) 6)"
      by (simp add: add.assoc)
    from Suc.IH [OF this] True show ?thesis by (subst genCode.simps) simp
  next
    case False
    then show ?thesis by (subst genCode.simps) simp
  qed
qed

lemma create_Some:
  assumes "create d rnd p now = Some (res, d', p')"
  shows "\<exists>code. res = Inr code \<and> valid_code code \<and> select_get (families d) code = None \<and>
           d' = d\<lparr>families := families d @ [(code, \<lparr>f_created_at = now, f_last_sync = now\<rparr>)]\<rparr>"
proof -
  from assms obtain code where g: "genCode d rnd p = Some (code, p')"
    by (auto simp: create_def split: option.splits prod.splits)
  from genCode_Some [OF g] have v: "valid_code code" and n: "select_get (families d) code = None"
    by (simp_all add: exists_get_def del: not_None_eq)
  from assms g n have "res = Inr code"
    and "d' = d\<lparr>families := families d @ [(code, \<lparr>f_created_at = now, f_last_sync = now\<rparr>)]\<rparr>"
    by (simp_all add: create_def insert_family_def)
  with v n show ?thesis by blast
qed

lemma create_returns:
  "\<not> exists_get d (gen_chars rnd (p + 6 * k) 6) \<Longrightarrow> create d rnd p now \<noteq> None"
  by (auto simp: create_def split: option.splits prod.splits dest: genCode_returns)

lemma to_upper_chars_all: "list_all (\<lambda>c. to_upper c = c) chars"
  by (simp add: chars_def to_upper_def lower_letters_def upper_letters_def)

lemma to_upper_chars: "c \<in> set chars \<Longrightarrow> to_upper c = c"
  using to_upper_chars_all by (simp add: list_all_iff)

lemma valid_code_upper:
  assumes "valid_code c"
  shows "toUpperCase c = c"
proof -
  from assms have "\<And>x. x \<in> set c \<Longrightarrow> to_upper x = x"
    by (auto simp: valid_code_def to_upper_chars)
  then show ?thesis unfolding toUpperCase_def by (rule map_idI)
qed

lemma length_toUpperCase: "length (toUpperCase c) = length c"
  by (simp add: toUpperCase_def)

lemma select_get_member:
  "r \<in> set t \<Longrightarrow> \<exists>r'. select_get t (fst r) = Some r' \<and> fst r' = fst r"
  by (cases "select_get t (fst r)") (auto simp: select_get_None_iff dest: select_get_Some_key)

text \<open>Join looks the upper-cased code up and answers with the code of the row.\<close>

lemma join_stored_code:
  assumes "r \<in> set (families d)" and "valid_code (fst r)" and "same_modulo_case c (fst r)"
  shows "join d (Val c) = Inr (fst r)"
proof -
  from assms(2,3) have up: "toUpperCase c = fst r"
    by (simp add: same_modulo_case_def valid_code_upper)
  from assms(2) have "length (toUpperCase c) = 6" by (simp add: up valid_code_def)
  then have len: "length c = 6" by (simp add: length_toUpperCase)
  from select_get_member [OF assms(1)] obtain r' where
    "select_get (families d) (fst r) = Some r'" "fst r' = fst r" by blast
  with up len show ?thesis by (auto simp: join_def)
qed

text \<open>Strings that differ only in letter case have the same upper-casing.\<close>

lemma letter_pairs_upper: "list_all (\<lambda>p. to_upper (fst p) = snd p \<and> to_upper (snd p) = snd p) letter_pairs"
  by (simp add: letter_pairs_def to_upper_def lower_letters_def upper_letters_def)

lemma same_letter_upper:
  assumes "same_letter a b"
  shows "to_upper a = to_upper b"
proof -
  have pair: "\<And>x y. (x, y) \<in> set letter_pairs \<Longrightarrow> to_upper x = y \<and> to_upper y = y"
    using letter_pairs_upper by (auto simp: list_all_iff)
  from assms consider "a = b" | "(a, b) \<in> set letter_pairs" | "(b, a) \<in> set letter_pairs"
    by (auto simp: same_letter_def)
  then show ?thesis
  proof cases
    case 1
    then show ?thesis by simp
  next
    case 2
    from pair [OF 2] show ?thesis by simp
  next
    case 3
    from pair [OF 3] show ?thesis by simp
  qed
qed

lemma differs_only_in_case_upper:
  "differs_only_in_case a b \<Longrightarrow> same_modulo_case a b"
  unfolding differs_only_in_case_def same_modulo_case_def toUpperCase_def
  by (induction a b rule: list_all2_induct) (simp_all add: same_letter_upper)

lemma wf_db_keys: "wf_db d \<Longrightarrow> c \<in> fst ` set (families d) \<Longrightarrow> valid_code c"
  by (auto simp: wf_db_def list_all_iff)

lemma case_variant_unknown:
  assumes "wf_db d" and "r \<in> set (families d)" and "same_modulo_case c (fst r)" and "c \<noteq> fst r"
  shows "select_get (families d) c = None"
proof (rule ccontr)
  assume "select_get (families d) c \<noteq> None"
  then have "c \<in> fst ` set (families d)" by (simp add: select_get_None_iff)
  with assms(1) have "toUpperCase c = c" by (auto dest: wf_db_keys valid_code_upper)
  moreover from assms(1,2) have "toUpperCase (fst r) = fst r"
    by (auto dest: wf_db_keys valid_code_upper)
  ultimately show False using assms(3,4) by (simp add: same_modulo_case_def)
qed

text \<open>Every store that the handlers build from the empty one is well formed.\<close>

lemma wf_db_empty: "wf_db \<lparr>families = [], sync_data = [], entries = []\<rparr>"
  by (simp add: wf_db_def)

lemma wf_db_create: "wf_db d \<Longrightarrow> create d rnd p now = Some (res, d', p') \<Longrightarrow> wf_db d'"
  by (auto simp: wf_db_def dest!: create_Some)

lemma wf_db_push: "wf_db d \<Longrightarrow> wf_db (snd (push d now req))"
proof (cases rule: push_cases [where req = req and d = d and now = now])
  case (ok code device_id d1)
  assume w: "wf_db d"
  from merge_entries_frame [OF ok(6)] have "families d1 = families d" by (simp add: save_snapshot_def)
  then have "map fst (families (snd (push d now req))) = map fst (families d)"
    using ok(7) by (simp add: keys_update_last_sync)
  then have "list_all valid_code (map fst (families (snd (push d now req)))) = list_all valid_code (map fst (families d))"
    by simp
  with w show ?thesis by (simp add: wf_db_def list_all_iff)
qed (simp_all add: wf_db_def save_snapshot_def)

subsection \<open>Join: validation of the code\<close>

text \<open>
  C7. A join request whose code is missing (absent or \<^verbatim>\<open>null\<close>) or has a length other
  than 6 is answered with InvalidArgument (HTTP 400). The answer is the same for every
  store \<open>d\<close>: it does not depend on which families exist, and join returns no new
  store, so nothing is written.
\<close>

theorem join_rejects_bad_length:
  "code = Undefined \<or> code = Null \<or> (\<exists>c. code = Val c \<and> length c \<noteq> 6) \<Longrightarrow>
   join d code = Inl InvalidArgument"
  by (auto simp: join_def)

theorem join_rejects_bad_length_witness:
  "join \<lparr>families = [(''AB23C'', \<lparr>f_created_at = 1, f_last_sync = 1\<rparr>)], sync_data = [], entries = []\<rparr>
     (Val ''AB23C'') = Inl InvalidArgument"
  using join_rejects_bad_length
    [of "Val ''AB23C''" "\<lparr>families = [(''AB23C'', \<lparr>f_created_at = 1, f_last_sync = 1\<rparr>)], sync_data = [], entries = []\<rparr>"]
  by simp

subsection \<open>Push: transaction scope\<close>

text \<open>
  C1, as the code has it. Only the loop over the entries runs inside
  \<^verbatim>\<open>db.transaction\<close>. When a push ends in an uncaught exception, no entry row of the
  push is committed and last\_sync is not updated; the snapshot row of the device, written
  by a statement of its own before the transaction begins, is committed: the store is the
  store before the push with that one row replaced.
\<close>

theorem push_failed_batch:
  assumes "push d now req = (Inl (Uncaught ex), d')"
  shows "entries d' = entries d \<and> families d' = families d \<and>
         (\<exists>code device_id. push_code req = Val code \<and> push_device_id req = Val device_id \<and>
            d' = save_snapshot code device_id (push_babies req) now d \<and>
            filter (\<lambda>r. fst r = (code, device_id)) (sync_data d') =
              [((code, device_id), \<lparr>s_data = babies_or_empty (push_babies req), s_updated_at = now\<rparr>)])"
proof (cases rule: push_cases [where req = req and d = d and now = now])
  case invalid
  with assms show ?thesis by simp
next
  case (not_found code device_id)
  with assms show ?thesis by simp
next
  case (thrown code device_id ex')
  with assms have "d' = save_snapshot code device_id (push_babies req) now d" by simp
  with thrown show ?thesis
    by (simp add: save_snapshot_def filter_key_insert_same)
next
  case (ok code device_id d1)
  with assms show ?thesis by simp
qed

theorem push_failed_batch_witness:
  "fst (push family0 2000
      \<lparr>push_code = Val ''AB23CD'', push_device_id = Val ''d1'', push_babies = None,
       push_entries = Val [Some entry1, None]\<rparr>) = Inl (Uncaught TypeError) \<and>
   entries (snd (push family0 2000
      \<lparr>push_code = Val ''AB23CD'', push_device_id = Val ''d1'', push_babies = None,
       push_entries = Val [Some entry1, None]\<rparr>)) = [] \<and>
   families (snd (push family0 2000
      \<lparr>push_code = Val ''AB23CD'', push_device_id = Val ''d1'', push_babies = None,
       push_entries = Val [Some entry1, None]\<rparr>)) = families family0 \<and>
   snd (push family0 2000
      \<lparr>push_code = Val ''AB23CD'', push_device_id = Val ''d1'', push_babies = None,
       push_entries = Val [Some entry1, None]\<rparr>) = save_snapshot ''AB23CD'' ''d1'' None 2000 family0"
proof -
  let ?req = "\<lparr>push_code = Val ''AB23CD'', push_device_id = Val ''d1'', push_babies = None,
       push_entries = Val [Some entry1, None]\<rparr>"
  have h: "push family0 2000 ?req = (Inl (Uncaught TypeError), snd (push family0 2000 ?req))"
    by (simp add: push_eval)
  have e: "entries family0 = []" by (simp add: family0_def)
  from push_failed_batch [OF h]
  have "entries (snd (push family0 2000 ?req)) = entries family0 \<and>
        families (snd (push family0 2000 ?req)) = families family0 \<and>
        snd (push family0 2000 ?req) = save_snapshot ''AB23CD'' ''d1'' None 2000 family0"
    by auto
  moreover have "fst (push family0 2000 ?req) = Inl (Uncaught TypeError)"
    by (simp add: push_eval)
  ultimately show ?thesis using e by (simp add: save_snapshot_def)
qed

text \<open>
  The snapshot write and the entry upserts are not one transaction. On a batch whose
  second element is \<^verbatim>\<open>null\<close> the first upsert runs, reading \<^verbatim>\<open>e.id\<close> of the second
  throws, the entry is rolled back, and the snapshot row written before stays.
\<close>

theorem push_not_atomic_counterexample:
  "push family0 2000
      \<lparr>push_code = Val ''AB23CD'', push_device_id = Val ''d1'',
       push_babies = Some (JArr [JStr ''Mia'']),
       push_entries = Val [Some entry1, None]\<rparr>
   = (Inl (Uncaught TypeError),
      family0\<lparr>sync_data :=
        [((''AB23CD'', ''d1''), \<lparr>s_data = JArr [JStr ''Mia''], s_updated_at = 2000\<rparr>)]\<rparr>)
   \<and> sync_data family0 = []"
  by (simp add: push_def family0_def entry1_def select_get_def save_snapshot_def merge_entries_def
        transaction_def upsert_run_def stored_row_def insert_or_replace_def)

subsection \<open>Push: the timestamp of a stored entry\<close>

text \<open>
  C2, as the code has it. In a push that succeeds, take an entry of the batch that is the
  last one with its id. The row stored for that id has updated\_at equal to the entry's
  \<^verbatim>\<open>_ts\<close> when \<^verbatim>\<open>_ts\<close> is supplied and is not 0, and equal to the server-receipt time when
  \<^verbatim>\<open>_ts\<close> is absent, \<^verbatim>\<open>null\<close> or 0 (\<^verbatim>\<open>e._ts || now\<close>).
\<close>

theorem pushed_updated_at:
  assumes "push d now req = (Inr n, d')" and "push_code req = Val code"
    and "push_entries req = Val (pre @ Some e # post)"
    and "js_id e = Val i" and "\<forall>e'. Some e' \<in> set post \<longrightarrow> js_id e' \<noteq> Val i"
  shows "\<exists>r. filter (\<lambda>x. fst x = (code, i)) (entries d') = [((code, i), r)] \<and>
             e_updated_at r = (case js_ts e of Val t \<Rightarrow> if t \<noteq> 0 then t else now | _ \<Rightarrow> now)"
  using push_ok_last [OF assms]
  by (cases "js_ts e") (simp_all add: stored_row_def)

theorem pushed_updated_at_witness:
  "\<exists>r. filter (\<lambda>x. fst x = (''AB23CD'', ''e1''))
          (entries (snd (push family0 2000
             \<lparr>push_code = Val ''AB23CD'', push_device_id = Val ''d1'', push_babies = None,
              push_entries = Val [Some entry1]\<rparr>))) = [((''AB23CD'', ''e1''), r)]
       \<and> e_updated_at r = 100"
proof -
  let ?req = "\<lparr>push_code = Val ''AB23CD'', push_device_id = Val ''d1'', push_babies = None,
              push_entries = Val [Some entry1]\<rparr>"
  have h: "push family0 2000 ?req = (Inr 1, snd (push family0 2000 ?req))"
    by (simp add: push_eval)
  have es: "push_entries ?req = Val ([] @ Some entry1 # [])" by simp
  have i: "js_id entry1 = Val ''e1''" and t: "js_ts entry1 = Val 100" by (simp_all add: entry1_def)
  have l: "\<forall>e'. Some e' \<in> set [] \<longrightarrow> js_id e' \<noteq> Val ''e1''" by simp
  from pushed_updated_at [OF h _ es i l, of "''AB23CD''"] t show ?thesis by simp
qed

text \<open>An entry pushed with \<^verbatim>\<open>_ts: 0\<close> supplies the field, and is stored with the
  server-receipt time 2000.\<close>

theorem pushed_updated_at_counterexample:
  "js_ts (entry1\<lparr>js_ts := Val 0\<rparr>) = Val 0 \<and>
   push family0 2000
      \<lparr>push_code = Val ''AB23CD'', push_device_id = Val ''d1'', push_babies = None,
       push_entries = Val [Some (entry1\<lparr>js_ts := Val 0\<rparr>)]\<rparr>
   = (Inr 1,
      \<lparr>families = [(''AB23CD'', \<lparr>f_created_at = 1000, f_last_sync = 2000\<rparr>)],
       sync_data = [((''AB23CD'', ''d1''), \<lparr>s_data = JArr [], s_updated_at = 2000\<rparr>)],
       entries = [((''AB23CD'', ''e1''),
                   \<lparr>e_data = entry1\<lparr>js_ts := Val 0\<rparr>, e_deleted = 0, e_updated_at = 2000\<rparr>)]\<rparr>)"
  by (simp add: push_eval)

subsection \<open>Pull: the watermark\<close>

text \<open>
  C3, as the code has it. For a family of the store and a watermark \<open>s\<close>, pull answers
  with the payloads of exactly the entry rows of the family whose updated\_at is
  greater than \<open>s\<close>, in table order; a row whose updated\_at equals \<open>s\<close> is not among
  them; with \<open>s = 0\<close>, every row of the family whose updated\_at is positive is.
\<close>

theorem pull_returns_newer:
  assumes "pull_code q = Val code" and "code \<noteq> []" and "select_get (families d) code \<noteq> None"
    and "pull_since q = Val s"
  shows "\<exists>resp rows. pull d t q = Inr resp \<and> r_entries resp = map (\<lambda>r. parsed (snd r)) rows \<and>
           rows = filter (\<lambda>r. fst (fst r) = code \<and> s < e_updated_at (snd r)) (entries d) \<and>
           (\<forall>r \<in> set (entries d). e_updated_at (snd r) = s \<longrightarrow> r \<notin> set rows) \<and>
           (s = 0 \<longrightarrow> (\<forall>r \<in> set (entries d). fst (fst r) = code \<and> 0 < e_updated_at (snd r) \<longrightarrow> r \<in> set rows))"
proof -
  from assms(4) have "num_or (pull_since q) 0 = s" by simp
  with pull_ok [OF assms(1-3), of t] show ?thesis
    by (auto simp: select_entries_def)
qed

theorem pull_returns_newer_witness:
  "\<exists>resp. pull (snd (push family0 2000
             \<lparr>push_code = Val ''AB23CD'', push_device_id = Val ''d1'', push_babies = None,
              push_entries = Val [Some entry1, Some (entry1\<lparr>js_id := Val ''e2'', js_ts := Val 200\<rparr>)]\<rparr>))
          2001 \<lparr>pull_code = Val ''AB23CD'', pull_since = Val 100\<rparr> = Inr resp
        \<and> r_entries resp = [entry1\<lparr>js_id := Val ''e2'', js_ts := Val 200\<rparr>]"
proof -
  let ?d = "snd (push family0 2000
             \<lparr>push_code = Val ''AB23CD'', push_device_id = Val ''d1'', push_babies = None,
              push_entries = Val [Some entry1, Some (entry1\<lparr>js_id := Val ''e2'', js_ts := Val 200\<rparr>)]\<rparr>)"
  let ?q = "\<lparr>pull_code = Val ''AB23CD'', pull_since = Val 100\<rparr>"
  have d: "?d = \<lparr>families = [(''AB23CD'', \<lparr>f_created_at = 1000, f_last_sync = 2000\<rparr>)],
       sync_data = [((''AB23CD'', ''d1''), \<lparr>s_data = JArr [], s_updated_at = 2000\<rparr>)],
       entries = [((''AB23CD'', ''e1''), \<lparr>e_data = entry1, e_deleted = 0, e_updated_at = 100\<rparr>),
                  ((''AB23CD'', ''e2''), \<lparr>e_data = entry1\<lparr>js_id := Val ''e2'', js_ts := Val 200\<rparr>,
                     e_deleted = 0, e_updated_at = 200\<rparr>)]\<rparr>"
    by (simp add: push_eval)
  have f: "select_get (families ?d) ''AB23CD'' \<noteq> None" by (simp add: d select_get_def)
  from pull_returns_newer [of ?q "''AB23CD''" ?d 100 2001, OF _ _ f]
  obtain resp rows where r: "pull ?d 2001 ?q = Inr resp" "r_entries resp = map (\<lambda>r. parsed (snd r)) rows"
    "rows = filter (\<lambda>r. fst (fst r) = ''AB23CD'' \<and> 100 < e_updated_at (snd r)) (entries ?d)"
    by auto
  from r(2,3) have "r_entries resp = [entry1\<lparr>js_id := Val ''e2'', js_ts := Val 200\<rparr>]"
    by (simp add: d parsed_def)
  with r(1) show ?thesis by blast
qed

text \<open>With \<^verbatim>\<open>since = 0\<close> not every entry pushed is returned: an entry pushed with a
  negative \<^verbatim>\<open>_ts\<close> is stored with that timestamp and never passes the filter.\<close>

theorem pull_since_zero_counterexample:
  "push family0 2000
      \<lparr>push_code = Val ''AB23CD'', push_device_id = Val ''d1'', push_babies = None,
       push_entries = Val [Some (entry1\<lparr>js_ts := Val (- 5)\<rparr>)]\<rparr>
   = (Inr 1,
      \<lparr>families = [(''AB23CD'', \<lparr>f_created_at = 1000, f_last_sync = 2000\<rparr>)],
       sync_data = [((''AB23CD'', ''d1''), \<lparr>s_data = JArr [], s_updated_at = 2000\<rparr>)],
       entries = [((''AB23CD'', ''e1''),
                   \<lparr>e_data = entry1\<lparr>js_ts := Val (- 5)\<rparr>, e_deleted = 0, e_updated_at = - 5\<rparr>)]\<rparr>)
   \<and> pull
      \<lparr>families = [(''AB23CD'', \<lparr>f_created_at = 1000, f_last_sync = 2000\<rparr>)],
       sync_data = [((''AB23CD'', ''d1''), \<lparr>s_data = JArr [], s_updated_at = 2000\<rparr>)],
       entries = [((''AB23CD'', ''e1''),
                   \<lparr>e_data = entry1\<lparr>js_ts := Val (- 5)\<rparr>, e_deleted = 0, e_updated_at = - 5\<rparr>)]\<rparr>
      2001 \<lparr>pull_code = Val ''AB23CD'', pull_since = Val 0\<rparr>
   = Inr \<lparr>r_entries = [], r_devices = [(''d1'', JArr [], 2000)], r_server_time = 2001\<rparr>"
  by (simp add: push_eval pull_def select_entries_def select_devices_def)

subsection \<open>Push: an unknown family\<close>

text \<open>
  C4, as the code has it. A push whose code is not the code of a family leaves the store
  unchanged. It is answered with NotFound (HTTP 404) when the request carries a
  non-empty code and a non-empty device id, and with InvalidArgument (HTTP 400) when it
  does not: the check for missing parameters comes before the lookup.
\<close>

theorem push_unknown_family:
  assumes "push_code req = Val code" and "select_get (families d) code = None"
  shows "push d now req =
     (if code \<noteq> [] \<and> truthy_str (push_device_id req) then Inl NotFound else Inl InvalidArgument, d)"
  using assms by (cases "push_device_id req") (auto simp: push_def)

theorem push_unknown_family_witness:
  "push family0 2000
      \<lparr>push_code = Val ''ZZZZZZ'', push_device_id = Val ''d1'', push_babies = None,
       push_entries = Val [Some entry1]\<rparr> = (Inl NotFound, family0)"
  using push_unknown_family [of "\<lparr>push_code = Val ''ZZZZZZ'', push_device_id = Val ''d1'', push_babies = None,
       push_entries = Val [Some entry1]\<rparr>" "''ZZZZZZ''" family0 2000]
  by (simp add: family0_def select_get_def)

text \<open>A push to a code that no family has, without a device id, is answered with
  InvalidArgument, not NotFound.\<close>

theorem push_unknown_family_counterexample:
  "select_get (families family0) ''ZZZZZZ'' = None \<and>
   push family0 2000
      \<lparr>push_code = Val ''ZZZZZZ'', push_device_id = Undefined, push_babies = None,
       push_entries = Val [Some entry1]\<rparr> = (Inl InvalidArgument, family0)"
  by (simp add: family0_def select_get_def push_def)

subsection \<open>Tombstones\<close>




subsection \<open>Push: the device snapshot\<close>

text \<open>
  C10. After a successful push the sync\_data table holds exactly one row for the
  (family code, device id) of the request: the profile payload of this request and the
  time of this push. When the request has no \<^verbatim>\<open>babies\<close> property, the payload of that row is
  the empty list, whatever the device had pushed before.
\<close>

theorem push_replaces_snapshot:
  assumes "push d now req = (Inr n, d')"
    and "push_code req = Val code" and "push_device_id req = Val device_id"
  shows "filter (\<lambda>r. fst r = (code, device_id)) (sync_data d') =
           [((code, device_id), \<lparr>s_data = babies_or_empty (push_babies req), s_updated_at = now\<rparr>)]
         \<and> (push_babies req = None \<longrightarrow>
              filter (\<lambda>r. fst r = (code, device_id)) (sync_data d') =
                [((code, device_id), \<lparr>s_data = JArr [], s_updated_at = now\<rparr>)])"
proof (cases rule: push_cases [where req = req and d = d and now = now])
  case invalid
  with assms show ?thesis by simp
next
  case (not_found code device_id)
  with assms show ?thesis by simp
next
  case (thrown code device_id ex')
  with assms show ?thesis by simp
next
  case (ok code' device_id' d1)
  with assms have eq: "code' = code" "device_id' = device_id"
    and d': "d' = d1\<lparr>families := update_last_sync now code (families d1)\<rparr>" by simp_all
  from ok(6) have "sync_data d1 = sync_data (save_snapshot code' device_id' (push_babies req) now d)"
    by (auto dest: merge_entries_frame)
  with eq d' show ?thesis
    by (auto simp: save_snapshot_def filter_key_insert_same)
qed

theorem push_replaces_snapshot_witness:
  "sync_data (snd (push
      (family0\<lparr>sync_data := [((''AB23CD'', ''d1''), \<lparr>s_data = JArr [JStr ''Mia''], s_updated_at = 1500\<rparr>)]\<rparr>)
      2000
      \<lparr>push_code = Val ''AB23CD'', push_device_id = Val ''d1'', push_babies = None,
       push_entries = Val [Some entry1]\<rparr>))
   = [((''AB23CD'', ''d1''), \<lparr>s_data = JArr [], s_updated_at = 2000\<rparr>)]"
proof -
  let ?d = "family0\<lparr>sync_data := [((''AB23CD'', ''d1''), \<lparr>s_data = JArr [JStr ''Mia''], s_updated_at = 1500\<rparr>)]\<rparr>"
  let ?req = "\<lparr>push_code = Val ''AB23CD'', push_device_id = Val ''d1'', push_babies = None,
       push_entries = Val [Some entry1]\<rparr>"
  have h: "push ?d 2000 ?req = (Inr 1, snd (push ?d 2000 ?req))"
    by (simp add: push_def family0_def entry1_def select_get_def save_snapshot_def merge_entries_def
        transaction_def upsert_run_def stored_row_def insert_or_replace_def)
  have s: "sync_data (snd (push ?d 2000 ?req)) =
      filter (\<lambda>r. fst r = (''AB23CD'', ''d1'')) (sync_data (snd (push ?d 2000 ?req)))"
    by (simp add: push_def family0_def entry1_def select_get_def save_snapshot_def merge_entries_def
        transaction_def upsert_run_def stored_row_def insert_or_replace_def)
  from push_replaces_snapshot [OF h, of "''AB23CD''" "''d1''"] s show ?thesis by simp
qed

subsection \<open>Create: the generated code\<close>

text \<open>
  C8. Whenever create returns, it returns a code (never an error); the code has length 6,
  each of its characters is one of the 32 distinct symbols of the alphabet, which has
  none of I, O, 0 and 1; no family of the store had that code when it was generated, and
  the store afterwards has a family with it.
\<close>

theorem create_code:
  assumes "create d rnd p now = Some (res, d', p')"
  shows "\<exists>code. res = Inr code \<and> length code = 6 \<and> set code \<subseteq> set chars \<and>
           length chars = 32 \<and> distinct chars \<and>
           set chars \<inter> {CHR ''I'', CHR ''O'', CHR ''0'', CHR ''1''} = {} \<and>
           code \<notin> fst ` set (families d) \<and> code \<in> fst ` set (families d')"
proof -
  from create_Some [OF assms] obtain code where c: "res = Inr code" "valid_code code"
    "select_get (families d) code = None"
    "d' = d\<lparr>families := families d @ [(code, \<lparr>f_created_at = now, f_last_sync = now\<rparr>)]\<rparr>"
    by blast
  have a: "length chars = 32" "distinct chars"
    "set chars \<inter> {CHR ''I'', CHR ''O'', CHR ''0'', CHR ''1''} = {}"
    by (simp_all add: chars_def)
  from c(3) have "code \<notin> fst ` set (families d)" by (simp add: select_get_None_iff)
  moreover from c(4) have "code \<in> fst ` set (families d')" by force
  ultimately show ?thesis using c(1,2) a by (simp add: valid_code_def)
qed

theorem create_code_witness:
  "create \<lparr>families = [(''ABCDEF'', \<lparr>f_created_at = 1000, f_last_sync = 1000\<rparr>)], sync_data = [], entries = []\<rparr>
     (\<lambda>p. p) 0 3000
   = Some (Inr ''GHJKLM'',
       \<lparr>families = [(''ABCDEF'', \<lparr>f_created_at = 1000, f_last_sync = 1000\<rparr>),
                    (''GHJKLM'', \<lparr>f_created_at = 3000, f_last_sync = 3000\<rparr>)],
        sync_data = [], entries = []\<rparr>, 12)
   \<and> length ''GHJKLM'' = 6 \<and> ''GHJKLM'' \<notin> fst ` set [(''ABCDEF'', \<lparr>f_created_at = 1000, f_last_sync = 1000\<rparr>)]"
proof -
  let ?d = "\<lparr>families = [(''ABCDEF'', \<lparr>f_created_at = 1000, f_last_sync = 1000\<rparr>)], sync_data = [], entries = []\<rparr>"
  have g1: "gen_chars (\<lambda>p. p) 0 6 = ''ABCDEF''" and g2: "gen_chars (\<lambda>p. p) 6 6 = ''GHJKLM''"
    by code_simp+
  have "genCode ?d (\<lambda>p. p) 6 = Some (''GHJKLM'', 12)"
    by (subst genCode.simps) (simp add: g2 exists_get_def select_get_def)
  then have "genCode ?d (\<lambda>p. p) 0 = Some (''GHJKLM'', 12)"
    by (subst genCode.simps) (simp add: g1 exists_get_def select_get_def)
  then have h: "create ?d (\<lambda>p. p) 0 3000 = Some (Inr ''GHJKLM'',
       \<lparr>families = [(''ABCDEF'', \<lparr>f_created_at = 1000, f_last_sync = 1000\<rparr>),
                    (''GHJKLM'', \<lparr>f_created_at = 3000, f_last_sync = 3000\<rparr>)],
        sync_data = [], entries = []\<rparr>, 12)"
    by (simp add: create_def insert_family_def select_get_def)
  from create_code [OF h] h show ?thesis by simp
qed

subsection \<open>Join: letter case\<close>

text \<open>
  C6. For a family of the store whose code is a generated one (six symbols of the
  alphabet, so upper case), joining with any code that differs from it only in letter case
  (the same length, and at every position the same character or the lower-case and
  upper-case form of one letter) succeeds, and the answer carries the stored code.
\<close>

theorem join_case_insensitive:
  assumes "r \<in> set (families d)" and "valid_code (fst r)" and "differs_only_in_case c (fst r)"
  shows "join d (Val c) = Inr (fst r)"
  using assms(1,2) differs_only_in_case_upper [OF assms(3)] by (rule join_stored_code)

theorem join_case_insensitive_witness:
  "join family0 (Val ''ab23cd'') = Inr ''AB23CD'' \<and> join family0 (Val ''aB23Cd'') = Inr ''AB23CD''"
proof -
  have m: "(''AB23CD'', \<lparr>f_created_at = 1000, f_last_sync = 1000\<rparr>) \<in> set (families family0)"
    by (simp add: family0_def)
  have v: "valid_code (fst (''AB23CD'', \<lparr>f_created_at = 1000, f_last_sync = 1000\<rparr>))"
    by (simp add: valid_code_def chars_def)
  have s: "differs_only_in_case ''ab23cd'' (fst (''AB23CD'', \<lparr>f_created_at = 1000, f_last_sync = 1000\<rparr>))"
    and s': "differs_only_in_case ''aB23Cd'' (fst (''AB23CD'', \<lparr>f_created_at = 1000, f_last_sync = 1000\<rparr>))"
    by (simp_all add: differs_only_in_case_def same_letter_def letter_pairs_def)
  from join_case_insensitive [OF m v s] join_case_insensitive [OF m v s'] show ?thesis by simp
qed

subsection \<open>Push and pull: letter case\<close>

text \<open>
  C9, as the code has it. In a well-formed store, take a family and a code that differs
  from the family's code only in letter case. Join with that code succeeds; pull with it is
  answered with NotFound; push with it writes nothing, and is answered with NotFound when
  the request carries a non-empty device id and with InvalidArgument when it does not.
\<close>

theorem sync_code_case_sensitive:
  assumes "wf_db d" and "r \<in> set (families d)" and "same_modulo_case c (fst r)" and "c \<noteq> fst r"
  shows "join d (Val c) = Inr (fst r) \<and>
         (pull_code q = Val c \<longrightarrow> pull d t q = Inl NotFound) \<and>
         (push_code req = Val c \<longrightarrow>
            push d now req =
              (if truthy_str (push_device_id req) then Inl NotFound else Inl InvalidArgument, d))"
proof -
  from assms(1,2) have v: "valid_code (fst r)" by (auto dest: wf_db_keys)
  note n = case_variant_unknown [OF assms]
  from v assms(3) have "length (toUpperCase c) = 6"
    by (simp add: same_modulo_case_def valid_code_upper valid_code_def)
  then have ne: "c \<noteq> []" by (auto simp: toUpperCase_def)
  have "join d (Val c) = Inr (fst r)" by (rule join_stored_code [OF assms(2) v assms(3)])
  moreover from n ne have "pull_code q = Val c \<longrightarrow> pull d t q = Inl NotFound"
    by (auto simp: pull_def)
  moreover from n ne have "push_code req = Val c \<longrightarrow>
            push d now req =
              (if truthy_str (push_device_id req) then Inl NotFound else Inl InvalidArgument, d)"
    by (cases "push_device_id req") (auto simp: push_def)
  ultimately show ?thesis by blast
qed

theorem sync_code_case_sensitive_witness:
  "join family0 (Val ''ab23cd'') = Inr ''AB23CD'' \<and>
   pull family0 2001 \<lparr>pull_code = Val ''ab23cd'', pull_since = Val 0\<rparr> = Inl NotFound \<and>
   push family0 2000 \<lparr>push_code = Val ''ab23cd'', push_device_id = Val ''d1'', push_babies = None,
       push_entries = Val [Some entry1]\<rparr> = (Inl NotFound, family0)"
proof -
  let ?r = "(''AB23CD'', \<lparr>f_created_at = 1000, f_last_sync = 1000\<rparr>)"
  have w: "wf_db family0" by (simp add: wf_db_def family0_def valid_code_def chars_def)
  have m: "?r \<in> set (families family0)" by (simp add: family0_def)
  have s: "same_modulo_case ''ab23cd'' (fst ?r)"
    by (simp add: same_modulo_case_def toUpperCase_def to_upper_def lower_letters_def upper_letters_def)
  have ne: "''ab23cd'' \<noteq> fst ?r" by simp
  from sync_code_case_sensitive [OF w m s ne,
      of "\<lparr>pull_code = Val ''ab23cd'', pull_since = Val 0\<rparr>" 2001
         "\<lparr>push_code = Val ''ab23cd'', push_device_id = Val ''d1'', push_babies = None,
       push_entries = Val [Some entry1]\<rparr>" 2000]
  show ?thesis by simp
qed

text \<open>A push with the lower-case code and no device id is answered with InvalidArgument,
  not NotFound.\<close>

theorem sync_code_case_sensitive_counterexample:
  "same_modulo_case ''ab23cd'' ''AB23CD'' \<and>
   select_get (families family0) ''AB23CD'' = Some (''AB23CD'', \<lparr>f_created_at = 1000, f_last_sync = 1000\<rparr>) \<and>
   push family0 2000 \<lparr>push_code = Val ''ab23cd'', push_device_id = Undefined, push_babies = None,
       push_entries = Val [Some entry1]\<rparr> = (Inl InvalidArgument, family0)"
  by (simp add: same_modulo_case_def toUpperCase_def to_upper_def lower_letters_def upper_letters_def
      family0_def select_get_def push_def)

end
